theory Spec2Isabelle
  imports Main "HOL-Library.AList"
begin

section \<open>Mention extraction of \<open>scripts/prepare_data/run.py\<close>\<close>

text \<open>
  The theory embeds \<open>_transform_pages\<close>: the function that turns BigBio-style pages
  into BLINK-style mention dictionaries. Python strings are \<open>string\<close> (one \<open>char\<close> per
  code point, so code points below 256), Python integers are \<open>int\<close>, a raised exception is
  the left injection of a sum, a dictionary that is only read is a map, and a dictionary
  whose \<open>values()\<close> are enumerated is an insertion-ordered association list.
\<close>

subsection \<open>Python primitives\<close>

datatype py_error = IndexError | KeyError

text \<open>\<open>sep.join(xs)\<close>.\<close>

fun join :: "string \<Rightarrow> string list \<Rightarrow> string" where
  "join sep [] = []"
| "join sep [x] = x"
| "join sep (x # y # ys) = x @ sep @ join sep (y # ys)"

text \<open>
  The characters \<open>str.isspace\<close> accepts among the code points below 256: tab, line feed,
  vertical tab, form feed, carriage return, the four separators 28 to 31, space, next line
  (133) and no-break space (160).
\<close>

definition is_space :: "char \<Rightarrow> bool" where
  "is_space c = ((of_char c :: nat) \<in> {9, 10, 11, 12, 13, 28, 29, 30, 31, 32, 133, 160})"

text \<open>\<open>s.strip()\<close>: leading and trailing whitespace removed.\<close>

definition strip :: "string \<Rightarrow> string" where
  "strip s = rev (dropWhile is_space (rev (dropWhile is_space s)))"

text \<open>
  \<open>s[:i]\<close> and \<open>s[j:]\<close> for Python integers: a negative index counts from the end, and
  an index beyond either end is clamped.
\<close>

definition slice_index :: "string \<Rightarrow> int \<Rightarrow> nat" where
  "slice_index s i = (if i < 0 then nat (int (length s) + i) else min (nat i) (length s))"

definition slice_to :: "string \<Rightarrow> int \<Rightarrow> string" where
  "slice_to s i = take (slice_index s i) s"

definition slice_from :: "string \<Rightarrow> int \<Rightarrow> string" where
  "slice_from s j = drop (slice_index s j) s"

text \<open>\<open>str(n)\<close> for an integer, as the f-string of \<open>mention_id\<close> formats it.\<close>

definition digit_char :: "nat \<Rightarrow> char" where
  "digit_char d = char_of (48 + d)"

fun str_nat :: "nat \<Rightarrow> string" where
  "str_nat n = (if n < 10 then [digit_char n] else str_nat (n div 10) @ [digit_char (n mod 10)])"

declare str_nat.simps [simp del]

definition str_int :: "int \<Rightarrow> string" where
  "str_int i = (if i < 0 then CHR ''-'' # str_nat (nat (- i)) else str_nat (nat i))"

text \<open>\<open>d[k]\<close> on a dictionary: \<open>KeyError\<close> when the key is missing.\<close>

definition getitem :: "('k \<rightharpoonup> 'v) \<Rightarrow> 'k \<Rightarrow> py_error + 'v" where
  "getitem d k = (case d k of None \<Rightarrow> Inl KeyError | Some v \<Rightarrow> Inr v)"

subsection \<open>Data\<close>

text \<open>A row of the semantic reference table (\<open>semantic_info\<close>), columns as named there.\<close>

record sem_row =
  CATEGORY :: string
  SEM_CODE :: string
  GROUP :: string

text \<open>The value stored at \<open>umls_info[group][cui]\<close>.\<close>

record concept_info =
  title :: string
  description :: string

type_synonym umls_info = "string \<rightharpoonup> (string \<rightharpoonup> concept_info)"

record normalized_ref =
  db_name :: string
  db_id :: string

text \<open>
  An entity of a page. \<open>ent_text\<close> and \<open>ent_type\<close> are \<open>None\<close> when the key is absent
  (\<open>entity.get\<close>); for \<open>offsets\<close> and \<open>normalized\<close> the code reads an absent key as the
  empty list, which is how it is represented here. An offset is a list of integers, as the
  code indexes it.
\<close>

record entity =
  ent_text :: "string list option"
  ent_type :: "string option"
  ent_offsets :: "int list list"
  ent_normalized :: "normalized_ref list"

record passage =
  passage_text :: "string list"

text \<open>A page; absent \<open>passages\<close> or \<open>entities\<close> are the empty list (\<open>page.get(k, [])\<close>).\<close>

record page =
  document_id :: string
  passages :: "passage list"
  entities :: "entity list"

text \<open>The dictionary appended to \<open>blink_mentions\<close>; \<open>mtype\<close> is its key \<open>type\<close>.\<close>

record mention_record =
  mention :: string
  mention_id :: string
  context_left :: string
  context_right :: string
  context_doc_id :: string
  mtype :: string
  label_id :: string
  label :: string
  label_title :: string

subsection \<open>The lookup tables built from \<open>semantic_info\<close>\<close>

text \<open>
  \<open>{row["CATEGORY"]: row["GROUP"] for row in ...}\<close>: a later row overwrites the value of
  an earlier one with the same key and keeps the key's position.
\<close>

definition cat_to_group :: "sem_row list \<Rightarrow> (string \<times> string) list" where
  "cat_to_group semantic_info =
     foldl (\<lambda>d row. AList.update (CATEGORY row) (GROUP row) d) [] semantic_info"

definition sem_to_group :: "sem_row list \<Rightarrow> (string \<times> string) list" where
  "sem_to_group semantic_info =
     foldl (\<lambda>d row. AList.update (SEM_CODE row) (GROUP row) d) [] semantic_info"

subsection \<open>One entity\<close>

text \<open>
  Lines 102 to 104: the concept id of the first normalized reference, replaced when the
  correction dictionary is given and has it as a key. An empty dictionary is falsy, and
  has no key either, so the truth test only separates \<open>None\<close>.
\<close>

definition corrected_cui :: "(string \<rightharpoonup> string) option \<Rightarrow> string \<Rightarrow> string" where
  "corrected_cui corrected_code cui =
     (case corrected_code of
        None \<Rightarrow> cui
      | Some cc \<Rightarrow> (case cc cui of None \<Rightarrow> cui | Some c \<Rightarrow> c))"

text \<open>
  Lines 111 to 124. \<open>groups\<close> is \<open>cui_to_groups.get(cui, [])\<close>. An absent type is
  \<open>None\<close>, which is in no dictionary of strings.
\<close>

definition resolve_group ::
  "(string \<times> string) list \<Rightarrow> (string \<times> string) list \<Rightarrow> string list \<Rightarrow> string option \<Rightarrow> string"
where
  "resolve_group c2g s2g groups entity_type =
     (if length groups = 1 then groups ! 0
      else
        let group =
          (case entity_type of
             None \<Rightarrow> ''Unknown''
           | Some t \<Rightarrow>
               if t \<in> set (map snd c2g) then t
               else (case map_of c2g t of
                  Some g \<Rightarrow> g
                | None \<Rightarrow> (case map_of s2g t of
                     Some g \<Rightarrow> g
                   | None \<Rightarrow> ''Unknown'')))
        in if group \<notin> set groups \<and> groups \<noteq> [] then groups ! 0 else group)"

text \<open>
  Lines 149 to 151: \<open>start_index\<close> and \<open>end_index\<close>. \<open>offsets[-1][1]\<close> raises when the
  last offset has a single element.
\<close>

definition offset_window :: "int list list \<Rightarrow> py_error + (int \<times> int)" where
  "offset_window offsets =
     (let start_index = (if offsets \<noteq> [] \<and> hd offsets \<noteq> [] then hd (hd offsets) else 0)
      in if offsets \<noteq> [] \<and> last offsets \<noteq> []
         then (case last offsets of
                 _ # e # _ \<Rightarrow> Inr (start_index, e)
               | _ \<Rightarrow> Inl IndexError)
         else Inr (start_index, 0))"

text \<open>Why an entity is passed over (each \<open>continue\<close> of the loop body).\<close>

datatype skip_reason = NoCUI | UnknownGroup | GroupNotFound | CUINotFound

datatype outcome = Skip skip_reason | Emit mention_record

text \<open>
  The body of the entity loop, lines 94 to 165, for the current \<open>entity_id\<close>: the entity
  is skipped, a mention dictionary is built, or an exception is raised.
\<close>

definition entity_body ::
  "umls_info \<Rightarrow> (string \<times> string) list \<Rightarrow> (string \<times> string) list \<Rightarrow>
   (string \<rightharpoonup> string list) \<Rightarrow> (string \<rightharpoonup> string) option \<Rightarrow>
   string \<Rightarrow> string \<Rightarrow> int \<Rightarrow> entity \<Rightarrow> py_error + outcome"
where
  "entity_body umls c2g s2g cui_to_groups corrected_code doc_id all_text entity_id e =
     (case ent_normalized e of
        [] \<Rightarrow> Inr (Skip NoCUI)
      | n # _ \<Rightarrow>
         let cui = corrected_cui corrected_code (db_id n);
             groups = (case cui_to_groups cui of None \<Rightarrow> [] | Some gs \<Rightarrow> gs);
             group = resolve_group c2g s2g groups (ent_type e)
         in if group = ''Unknown'' then Inr (Skip UnknownGroup)
            else if umls group = None then Inr (Skip GroupNotFound)
            else (case getitem umls group of
               Inl err \<Rightarrow> Inl err
             | Inr by_cui \<Rightarrow>
                 if by_cui cui = None then Inr (Skip CUINotFound)
                 else (case getitem by_cui cui of
                    Inl err \<Rightarrow> Inl err
                  | Inr info \<Rightarrow>
                     (case offset_window (ent_offsets e) of
                        Inl err \<Rightarrow> Inl err
                      | Inr (start_index, end_index) \<Rightarrow>
                          Inr (Emit \<lparr>
                            mention = strip (join '' '' (case ent_text e of None \<Rightarrow> [] | Some ts \<Rightarrow> ts)),
                            mention_id = doc_id @ ''.'' @ str_int entity_id,
                            context_left = strip (slice_to all_text start_index),
                            context_right = strip (slice_from all_text end_index),
                            context_doc_id = doc_id,
                            mtype = group,
                            label_id = cui,
                            label = description info,
                            label_title = title info \<rparr>)))))"

subsection \<open>The loops\<close>

text \<open>
  The entity loop of one page, on the pair of \<open>entity_id\<close> and \<open>blink_mentions\<close>:
  only an emitted mention advances \<open>entity_id\<close> and is appended.
\<close>

fun entities_loop ::
  "umls_info \<Rightarrow> (string \<times> string) list \<Rightarrow> (string \<times> string) list \<Rightarrow>
   (string \<rightharpoonup> string list) \<Rightarrow> (string \<rightharpoonup> string) option \<Rightarrow>
   string \<Rightarrow> string \<Rightarrow> entity list \<Rightarrow> int \<times> mention_record list \<Rightarrow>
   py_error + (int \<times> mention_record list)"
where
  "entities_loop umls c2g s2g ctg cc doc_id all_text [] st = Inr st"
| "entities_loop umls c2g s2g ctg cc doc_id all_text (e # es) (entity_id, blink_mentions) =
     (case entity_body umls c2g s2g ctg cc doc_id all_text entity_id e of
        Inl err \<Rightarrow> Inl err
      | Inr (Skip _) \<Rightarrow>
          entities_loop umls c2g s2g ctg cc doc_id all_text es (entity_id, blink_mentions)
      | Inr (Emit m) \<Rightarrow>
          entities_loop umls c2g s2g ctg cc doc_id all_text es
            (entity_id + 1, blink_mentions @ [m]))"

text \<open>
  Lines 89 to 91: \<open>passage["text"][0]\<close> of every passage, joined by one space. A passage
  whose text list is empty raises.
\<close>

fun first_fragments :: "passage list \<Rightarrow> py_error + string list" where
  "first_fragments [] = Inr []"
| "first_fragments (p # ps) =
     (case passage_text p of
        [] \<Rightarrow> Inl IndexError
      | t # _ \<Rightarrow> (case first_fragments ps of
           Inl err \<Rightarrow> Inl err
         | Inr ts \<Rightarrow> Inr (t # ts)))"

definition all_text_of :: "passage list \<Rightarrow> py_error + string" where
  "all_text_of ps =
     (case first_fragments ps of Inl err \<Rightarrow> Inl err | Inr ts \<Rightarrow> Inr (join '' '' ts))"

text \<open>The page loop: \<open>entity_id\<close> restarts at 1 on every page.\<close>

fun pages_loop ::
  "umls_info \<Rightarrow> (string \<times> string) list \<Rightarrow> (string \<times> string) list \<Rightarrow>
   (string \<rightharpoonup> string list) \<Rightarrow> (string \<rightharpoonup> string) option \<Rightarrow>
   page list \<Rightarrow> mention_record list \<Rightarrow> py_error + mention_record list"
where
  "pages_loop umls c2g s2g ctg cc [] blink_mentions = Inr blink_mentions"
| "pages_loop umls c2g s2g ctg cc (p # ps) blink_mentions =
     (case all_text_of (passages p) of
        Inl err \<Rightarrow> Inl err
      | Inr all_text \<Rightarrow>
         (case entities_loop umls c2g s2g ctg cc (document_id p) all_text (entities p)
                 (1, blink_mentions) of
            Inl err \<Rightarrow> Inl err
          | Inr (_, blink_mentions') \<Rightarrow> pages_loop umls c2g s2g ctg cc ps blink_mentions'))"

definition transform_pages ::
  "page list \<Rightarrow> umls_info \<Rightarrow> sem_row list \<Rightarrow> (string \<rightharpoonup> string list) \<Rightarrow>
   (string \<rightharpoonup> string) option \<Rightarrow> py_error + mention_record list"
where
  "transform_pages pages umls semantic_info cui_to_groups corrected_code =
     pages_loop umls (cat_to_group semantic_info) (sem_to_group semantic_info)
       cui_to_groups corrected_code pages []"

subsection \<open>The specification's wording\<close>

text \<open>
  The priority chain of the specification (4.3, step c, i to iv): the raw type is itself a
  valid group name (a group of the category map), else it is a category code, else a
  semantic-type code, else the group is \<open>Unknown\<close>.
\<close>

definition spec_type_group ::
  "(string \<times> string) list \<Rightarrow> (string \<times> string) list \<Rightarrow> string option \<Rightarrow> string" where
  "spec_type_group c2g s2g entity_type =
     (case entity_type of
        None \<Rightarrow> ''Unknown''
      | Some t \<Rightarrow>
          if t \<in> snd ` set c2g then t
          else if t \<in> fst ` set c2g then the (map_of c2g t)
          else if t \<in> fst ` set s2g then the (map_of s2g t)
          else ''Unknown'')"



text \<open>
  Substituting the corrected id in the source: the \<open>db_id\<close> of the first normalized
  reference of every entity is replaced by its image under the correction dictionary.
\<close>

definition presubstitute_entity :: "(string \<rightharpoonup> string) \<Rightarrow> entity \<Rightarrow> entity" where
  "presubstitute_entity cc e =
     (case ent_normalized e of
        [] \<Rightarrow> e
      | n # ns \<Rightarrow> e\<lparr>ent_normalized := n\<lparr>db_id := corrected_cui (Some cc) (db_id n)\<rparr> # ns\<rparr>)"

definition presubstitute :: "(string \<rightharpoonup> string) \<Rightarrow> page \<Rightarrow> page" where
  "presubstitute cc p = p\<lparr>entities := map (presubstitute_entity cc) (entities p)\<rparr>"

subsection \<open>Example inputs\<close>

text \<open>
  A semantic table in which the category \<open>T047\<close> belongs to \<open>Procedure\<close>, a
  terminology with the concept \<open>C1\<close> under two groups, and a page whose text is
  \<open>the flu is bad\<close>.
\<close>

definition ex_semantic_info :: "sem_row list" where
  "ex_semantic_info =
     [\<lparr>CATEGORY = ''T047'', SEM_CODE = ''dsyn'', GROUP = ''Procedure''\<rparr>,
      \<lparr>CATEGORY = ''T184'', SEM_CODE = ''sosy'', GROUP = ''Symptom''\<rparr>]"

definition ex_umls :: umls_info where
  "ex_umls =
     [''Disease'' \<mapsto>
        [''C1'' \<mapsto> \<lparr>title = ''Flu'', description = ''Flu ( Disease : Viral ; Infectious )''\<rparr>],
      ''Symptom'' \<mapsto>
        [''C1'' \<mapsto> \<lparr>title = ''Flu'', description = ''Flu ( Symptom : Sign )''\<rparr>]]"

definition ex_ctg_one :: "string \<rightharpoonup> string list" where
  "ex_ctg_one = [''C1'' \<mapsto> [''Symptom'']]"

definition ex_ctg_two :: "string \<rightharpoonup> string list" where
  "ex_ctg_two = [''C1'' \<mapsto> [''Disease'', ''Symptom'']]"

definition ex_cc :: "string \<rightharpoonup> string" where
  "ex_cc = [''C0'' \<mapsto> ''C1'', ''C1'' \<mapsto> ''C2'']"

definition ex_entity :: entity where
  "ex_entity = \<lparr>ent_text = Some [''flu''], ent_type = Some ''T047'',
     ent_offsets = [[4, 7]], ent_normalized = [\<lparr>db_name = ''umls'', db_id = ''C1''\<rparr>]\<rparr>"

definition ex_unlinked :: entity where
  "ex_unlinked = \<lparr>ent_text = Some [''bad''], ent_type = Some ''T047'',
     ent_offsets = [[11, 14]], ent_normalized = []\<rparr>"

definition ex_no_text :: entity where
  "ex_no_text = \<lparr>ent_text = None, ent_type = Some ''Symptom'',
     ent_offsets = [], ent_normalized = [\<lparr>db_name = ''umls'', db_id = ''C1''\<rparr>]\<rparr>"

definition ex_miscoded :: entity where
  "ex_miscoded = \<lparr>ent_text = Some [''flu''], ent_type = Some ''T047'',
     ent_offsets = [[4, 7]], ent_normalized = [\<lparr>db_name = ''umls'', db_id = ''C0''\<rparr>]\<rparr>"




definition ex_page :: page where
  "ex_page = \<lparr>document_id = ''doc'', passages = [\<lparr>passage_text = [''the flu is bad'']\<rparr>],
     entities = [ex_unlinked, ex_entity, ex_no_text]\<rparr>"


definition ex_mention_flu :: "string \<Rightarrow> string \<Rightarrow> mention_record" where
  "ex_mention_flu g descr =
     \<lparr>mention = ''flu'', mention_id = ''doc.1'', context_left = ''the'',
      context_right = ''is bad'', context_doc_id = ''doc'', mtype = g, label_id = ''C1'',
      label = descr, label_title = ''Flu''\<rparr>"

definition ex_mention_empty :: mention_record where
  "ex_mention_empty =
     \<lparr>mention = [], mention_id = ''doc.2'', context_left = [],
      context_right = ''the flu is bad'', context_doc_id = ''doc'', mtype = ''Symptom'',
      label_id = ''C1'', label = ''Flu ( Symptom : Sign )'', label_title = ''Flu''\<rparr>"


section \<open>Properties of one entity\<close>

lemma resolve_group_single: "resolve_group c2g s2g [g] ty = g"
  by (simp add: resolve_group_def)

lemma corrected_cui_None: "corrected_cui None cui = cui"
  by (simp add: corrected_cui_def)

lemma entity_body_no_normalized:
  "ent_normalized e = [] \<Longrightarrow> entity_body umls c2g s2g ctg cc d atxt i e = Inr (Skip NoCUI)"
  by (simp add: entity_body_def)

text \<open>
  With a normalized reference, the body is a chain of lookups; the guarded accesses of
  lines 138, 146 and 147 have become the \<open>Some\<close> branches.
\<close>

lemma entity_body_flat:
  assumes "ent_normalized e = n # ns"
  shows "entity_body umls c2g s2g ctg cc d atxt i e =
    (let cui = corrected_cui cc (db_id n);
         group = resolve_group c2g s2g (case ctg cui of None \<Rightarrow> [] | Some gs \<Rightarrow> gs) (ent_type e)
     in if group = ''Unknown'' then Inr (Skip UnknownGroup)
        else case umls group of
          None \<Rightarrow> Inr (Skip GroupNotFound)
        | Some by_cui \<Rightarrow>
           (case by_cui cui of
              None \<Rightarrow> Inr (Skip CUINotFound)
            | Some info \<Rightarrow>
               (case offset_window (ent_offsets e) of
                  Inl err \<Rightarrow> Inl err
                | Inr w \<Rightarrow>
                    Inr (Emit \<lparr>
                      mention = strip (join '' '' (case ent_text e of None \<Rightarrow> [] | Some ts \<Rightarrow> ts)),
                      mention_id = d @ ''.'' @ str_int i,
                      context_left = strip (slice_to atxt (fst w)),
                      context_right = strip (slice_from atxt (snd w)),
                      context_doc_id = d,
                      mtype = group,
                      label_id = cui,
                      label = description info,
                      label_title = title info \<rparr>))))"
  using assms
  by (auto simp: entity_body_def Let_def getitem_def split: option.splits sum.splits)

text \<open>What an emitted mention tells about the entity and the tables.\<close>

lemma entity_body_EmitD:
  assumes "entity_body umls c2g s2g ctg cc d atxt i e = Inr (Emit m)"
  shows "\<exists>n ns by_cui info w.
    ent_normalized e = n # ns \<and>
    resolve_group c2g s2g
        (case ctg (corrected_cui cc (db_id n)) of None \<Rightarrow> [] | Some gs \<Rightarrow> gs) (ent_type e)
      \<noteq> ''Unknown'' \<and>
    umls (resolve_group c2g s2g
        (case ctg (corrected_cui cc (db_id n)) of None \<Rightarrow> [] | Some gs \<Rightarrow> gs) (ent_type e))
      = Some by_cui \<and>
    by_cui (corrected_cui cc (db_id n)) = Some info \<and>
    offset_window (ent_offsets e) = Inr w \<and>
    m = \<lparr>mention = strip (join '' '' (case ent_text e of None \<Rightarrow> [] | Some ts \<Rightarrow> ts)),
         mention_id = d @ ''.'' @ str_int i,
         context_left = strip (slice_to atxt (fst w)),
         context_right = strip (slice_from atxt (snd w)),
         context_doc_id = d,
         mtype = resolve_group c2g s2g
           (case ctg (corrected_cui cc (db_id n)) of None \<Rightarrow> [] | Some gs \<Rightarrow> gs) (ent_type e),
         label_id = corrected_cui cc (db_id n),
         label = description info,
         label_title = title info\<rparr>"
proof (cases "ent_normalized e")
  case Nil
  with assms show ?thesis by (simp add: entity_body_no_normalized)
next
  case (Cons n ns)
  from assms show ?thesis
    unfolding entity_body_flat [where e = e, OF Cons] Let_def
    by (cases "offset_window (ent_offsets e)")
      (auto simp: Cons split: if_splits option.splits)
qed

lemma entity_body_EmitE:
  assumes "entity_body umls c2g s2g ctg cc d atxt i e = Inr (Emit m)"
  obtains n ns by_cui info w where
    "ent_normalized e = n # ns"
    "label_id m = corrected_cui cc (db_id n)"
    "mtype m = resolve_group c2g s2g
        (case ctg (label_id m) of None \<Rightarrow> [] | Some gs \<Rightarrow> gs) (ent_type e)"
    "mtype m \<noteq> ''Unknown''"
    "umls (mtype m) = Some by_cui"
    "by_cui (label_id m) = Some info"
    "label m = description info"
    "label_title m = title info"
    "offset_window (ent_offsets e) = Inr w"
    "context_left m = strip (slice_to atxt (fst w))"
    "context_right m = strip (slice_from atxt (snd w))"
    "mention m = strip (join '' '' (case ent_text e of None \<Rightarrow> [] | Some ts \<Rightarrow> ts))"
    "mention_id m = d @ ''.'' @ str_int i"
    "context_doc_id m = d"
proof -
  from entity_body_EmitD [OF assms] obtain n ns by_cui info w where
    h: "ent_normalized e = n # ns"
    "resolve_group c2g s2g
        (case ctg (corrected_cui cc (db_id n)) of None \<Rightarrow> [] | Some gs \<Rightarrow> gs) (ent_type e)
      \<noteq> ''Unknown''"
    "umls (resolve_group c2g s2g
        (case ctg (corrected_cui cc (db_id n)) of None \<Rightarrow> [] | Some gs \<Rightarrow> gs) (ent_type e))
      = Some by_cui"
    "by_cui (corrected_cui cc (db_id n)) = Some info"
    "offset_window (ent_offsets e) = Inr w"
    and m: "m = \<lparr>mention = strip (join '' '' (case ent_text e of None \<Rightarrow> [] | Some ts \<Rightarrow> ts)),
         mention_id = d @ ''.'' @ str_int i,
         context_left = strip (slice_to atxt (fst w)),
         context_right = strip (slice_from atxt (snd w)),
         context_doc_id = d,
         mtype = resolve_group c2g s2g
           (case ctg (corrected_cui cc (db_id n)) of None \<Rightarrow> [] | Some gs \<Rightarrow> gs) (ent_type e),
         label_id = corrected_cui cc (db_id n),
         label = description info,
         label_title = title info\<rparr>"
    by blast
  show ?thesis
    by (rule that [of n ns by_cui info w]) (simp_all add: h m)
qed

lemma entity_body_not_KeyError:
  "entity_body umls c2g s2g ctg cc d atxt i e \<noteq> Inl KeyError"
proof (cases "ent_normalized e")
  case Nil
  then show ?thesis by (simp add: entity_body_no_normalized)
next
  case (Cons n ns)
  have "offset_window (ent_offsets e) \<noteq> Inl KeyError"
    by (auto simp: offset_window_def Let_def split: list.splits)
  then show ?thesis
    unfolding entity_body_flat [where e = e, OF Cons] Let_def
    by (auto split: if_splits option.splits sum.splits)
qed

lemma resolve_group_spec:
  assumes "length groups \<noteq> 1"
  shows "resolve_group c2g s2g groups ty =
     (if spec_type_group c2g s2g ty \<notin> set groups \<and> groups \<noteq> [] then hd groups
      else spec_type_group c2g s2g ty)"
proof -
  have tg: "(case ty of
             None \<Rightarrow> ''Unknown''
           | Some t \<Rightarrow>
               if t \<in> set (map snd c2g) then t
               else (case map_of c2g t of
                  Some g \<Rightarrow> g
                | None \<Rightarrow> (case map_of s2g t of
                     Some g \<Rightarrow> g
                   | None \<Rightarrow> ''Unknown''))) = spec_type_group c2g s2g ty"
  proof (cases ty)
    case None
    then show ?thesis by (simp add: spec_type_group_def)
  next
    case (Some t)
    show ?thesis
    proof (cases "map_of c2g t")
      case c: None
      then have nc: "t \<notin> fst ` set c2g" by (simp add: map_of_eq_None_iff)
      show ?thesis
      proof (cases "map_of s2g t")
        case None
        then have "t \<notin> fst ` set s2g" by (simp add: map_of_eq_None_iff)
        with nc c None Some show ?thesis by (simp add: spec_type_group_def)
      next
        case (Some g)
        then have "t \<in> fst ` set s2g" by (metis map_of_eq_None_iff option.distinct(1))
        with nc c Some \<open>ty = Some t\<close> show ?thesis by (simp add: spec_type_group_def)
      qed
    next
      case (Some g)
      then have "t \<in> fst ` set c2g" by (metis map_of_eq_None_iff option.distinct(1))
      with Some \<open>ty = Some t\<close> show ?thesis by (simp add: spec_type_group_def)
    qed
  qed
  show ?thesis
    using assms unfolding resolve_group_def tg Let_def
    by (simp add: hd_conv_nth)
qed

lemma entity_body_presubstitute:
  "entity_body umls c2g s2g ctg (Some cc) d atxt i e =
   entity_body umls c2g s2g ctg None d atxt i (presubstitute_entity cc e)"
proof (cases "ent_normalized e")
  case Nil
  then show ?thesis
    by (simp add: presubstitute_entity_def entity_body_no_normalized)
next
  case (Cons n ns)
  let ?e' = "e\<lparr>ent_normalized := n\<lparr>db_id := corrected_cui (Some cc) (db_id n)\<rparr> # ns\<rparr>"
  have p: "presubstitute_entity cc e = ?e'"
    by (simp add: presubstitute_entity_def Cons)
  have n': "ent_normalized ?e' = n\<lparr>db_id := corrected_cui (Some cc) (db_id n)\<rparr> # ns"
    by simp
  show ?thesis
    unfolding p entity_body_flat [where e = e, OF Cons] entity_body_flat [where e = ?e', OF n']
    by (auto simp: corrected_cui_None Let_def split: option.splits sum.splits)
qed




section \<open>The decimal rendering of the index\<close>

text \<open>Different indices are rendered differently, so the ids of one page differ.\<close>

lemma str_nat_nonempty: "str_nat n \<noteq> []"
  by (subst str_nat.simps) simp

lemma digit_char_inj: "a < 10 \<Longrightarrow> b < 10 \<Longrightarrow> digit_char a = digit_char b \<Longrightarrow> a = b"
  by (simp add: digit_char_def char_of_eq_iff take_bit_eq_mod)

lemma str_nat_inj: "str_nat a = str_nat b \<Longrightarrow> a = b"
proof (induction a arbitrary: b rule: str_nat.induct)
  case (1 a)
  show ?case
  proof (cases "a < 10")
    case True
    show ?thesis
    proof (cases "b < 10")
      case b: True
      from "1.prems" True b have "digit_char a = digit_char b"
        by (simp add: str_nat.simps [of a] str_nat.simps [of b])
      with True b show ?thesis by (rule digit_char_inj)
    next
      case False
      from "1.prems" True False have "[digit_char a] = str_nat (b div 10) @ [digit_char (b mod 10)]"
        by (simp add: str_nat.simps [of a] str_nat.simps [of b])
      then show ?thesis using str_nat_nonempty [of "b div 10"] by simp
    qed
  next
    case False
    show ?thesis
    proof (cases "b < 10")
      case True
      from "1.prems" True False have "str_nat (a div 10) @ [digit_char (a mod 10)] = [digit_char b]"
        by (simp add: str_nat.simps [of a] str_nat.simps [of b])
      then show ?thesis using str_nat_nonempty [of "a div 10"] by simp
    next
      case b: False
      from "1.prems" False b have
        "str_nat (a div 10) @ [digit_char (a mod 10)] = str_nat (b div 10) @ [digit_char (b mod 10)]"
        by (simp add: str_nat.simps [of a] str_nat.simps [of b])
      then have e: "str_nat (a div 10) = str_nat (b div 10)"
        and d: "digit_char (a mod 10) = digit_char (b mod 10)"
        by simp_all
      from "1.IH" [OF False e] have "a div 10 = b div 10" .
      moreover from d have "a mod 10 = b mod 10" by (intro digit_char_inj) simp_all
      ultimately show ?thesis by (metis div_mult_mod_eq)
    qed
  qed
qed

lemma str_int_inj: "0 \<le> i \<Longrightarrow> 0 \<le> j \<Longrightarrow> str_int i = str_int j \<Longrightarrow> i = j"
  by (auto simp: str_int_def dest: str_nat_inj)

lemma ids_distinct:
  assumes "\<forall>k<length ms. mention_id (ms ! k) = d @ ''.'' @ str_int (int k + 1)"
  shows "distinct (map mention_id ms)"
proof -
  have "mention_id (ms ! j) \<noteq> mention_id (ms ! k)" if "j < length ms" "k < length ms" "j \<noteq> k" for j k
  proof
    assume "mention_id (ms ! j) = mention_id (ms ! k)"
    with assms that have "str_int (int j + 1) = str_int (int k + 1)" by simp
    then have "int j + 1 = int k + 1" by (intro str_int_inj) simp_all
    with that show False by simp
  qed
  then show ?thesis by (simp add: distinct_conv_nth)
qed

section \<open>Properties of the loops\<close>

lemma entities_loop_append:
  "entities_loop umls c2g s2g ctg cc d atxt (xs @ ys) st =
     (case entities_loop umls c2g s2g ctg cc d atxt xs st of
        Inl err \<Rightarrow> Inl err
      | Inr st' \<Rightarrow> entities_loop umls c2g s2g ctg cc d atxt ys st')"
proof (induction xs arbitrary: st)
  case Nil
  show ?case by simp
next
  case (Cons x xs)
  obtain i acc where st: "st = (i, acc)" by (cases st)
  show ?case
    unfolding st by (simp add: Cons.IH split: sum.splits outcome.splits)
qed

lemma pages_loop_append:
  "pages_loop umls c2g s2g ctg cc (ps @ qs) acc =
     (case pages_loop umls c2g s2g ctg cc ps acc of
        Inl err \<Rightarrow> Inl err
      | Inr acc' \<Rightarrow> pages_loop umls c2g s2g ctg cc qs acc')"
  by (induction ps arbitrary: acc) (simp_all split: sum.splits prod.splits)

lemma entities_loop_ids:
  assumes "entities_loop umls c2g s2g ctg cc d atxt es (i, acc) = Inr (i', acc')"
  shows "\<exists>new. acc' = acc @ new \<and> i' = i + int (length new) \<and> length new \<le> length es \<and>
           (\<forall>k<length new. mention_id (new ! k) = d @ ''.'' @ str_int (i + int k) \<and>
                           context_doc_id (new ! k) = d)"
  using assms
proof (induction es arbitrary: i acc)
  case Nil
  then show ?case by simp
next
  case (Cons e es)
  show ?case
  proof (cases "entity_body umls c2g s2g ctg cc d atxt i e")
    case (Inl err)
    with Cons.prems show ?thesis by simp
  next
    case (Inr out)
    show ?thesis
    proof (cases out)
      case (Skip r)
      with Inr Cons.prems
      have "entities_loop umls c2g s2g ctg cc d atxt es (i, acc) = Inr (i', acc')" by simp
      from Cons.IH [OF this] obtain new where
        "acc' = acc @ new" "i' = i + int (length new)" "length new \<le> length es"
        "\<forall>k<length new. mention_id (new ! k) = d @ ''.'' @ str_int (i + int k) \<and>
                           context_doc_id (new ! k) = d"
        by blast
      then show ?thesis by (intro exI [of _ new]) simp
    next
      case (Emit m)
      with Inr have em: "entity_body umls c2g s2g ctg cc d atxt i e = Inr (Emit m)" by simp
      with Cons.prems
      have "entities_loop umls c2g s2g ctg cc d atxt es (i + 1, acc @ [m]) = Inr (i', acc')"
        by simp
      from Cons.IH [OF this] obtain new where new:
        "acc' = (acc @ [m]) @ new" "i' = i + 1 + int (length new)" "length new \<le> length es"
        "\<forall>k<length new. mention_id (new ! k) = d @ ''.'' @ str_int (i + 1 + int k) \<and>
                           context_doc_id (new ! k) = d"
        by blast
      from em have m: "mention_id m = d @ ''.'' @ str_int i" "context_doc_id m = d"
        by (auto elim: entity_body_EmitE)
      have "\<forall>k<length (m # new). mention_id ((m # new) ! k) = d @ ''.'' @ str_int (i + int k) \<and>
                           context_doc_id ((m # new) ! k) = d"
      proof (intro allI impI)
        fix k assume k: "k < length (m # new)"
        show "mention_id ((m # new) ! k) = d @ ''.'' @ str_int (i + int k) \<and>
                           context_doc_id ((m # new) ! k) = d"
        proof (cases k)
          case 0
          with m show ?thesis by simp
        next
          case (Suc j)
          with k have "j < length new" by simp
          with new(4) have "mention_id (new ! j) = d @ ''.'' @ str_int (i + 1 + int j) \<and>
                           context_doc_id (new ! j) = d" by blast
          moreover have "i + 1 + int j = i + int k" using Suc by simp
          ultimately show ?thesis using Suc by simp
        qed
      qed
      with new(1,2,3) show ?thesis by (intro exI [of _ "m # new"]) simp
    qed
  qed
qed

lemma pages_loop_ids:
  assumes "pages_loop umls c2g s2g ctg cc ps acc = Inr ms"
  shows "\<exists>mss. length mss = length ps \<and> ms = acc @ concat mss \<and>
           (\<forall>j<length ps. length (mss ! j) \<le> length (entities (ps ! j)) \<and>
              (\<forall>k<length (mss ! j).
                 mention_id (mss ! j ! k) = document_id (ps ! j) @ ''.'' @ str_int (int k + 1) \<and>
                 context_doc_id (mss ! j ! k) = document_id (ps ! j)))"
  using assms
proof (induction ps arbitrary: acc)
  case Nil
  then show ?case by simp
next
  case (Cons p ps)
  from Cons.prems obtain atxt i' acc' where
    e: "entities_loop umls c2g s2g ctg cc (document_id p) atxt (entities p) (1, acc) = Inr (i', acc')"
    and r: "pages_loop umls c2g s2g ctg cc ps acc' = Inr ms"
    by (auto split: sum.splits prod.splits)
  from entities_loop_ids [OF e] obtain new where new:
    "acc' = acc @ new" "length new \<le> length (entities p)"
    "\<forall>k<length new. mention_id (new ! k) = document_id p @ ''.'' @ str_int (1 + int k) \<and>
                           context_doc_id (new ! k) = document_id p"
    by blast
  from Cons.IH [OF r] obtain mss where mss:
    "length mss = length ps" "ms = acc' @ concat mss"
    "\<forall>j<length ps. length (mss ! j) \<le> length (entities (ps ! j)) \<and>
              (\<forall>k<length (mss ! j).
                 mention_id (mss ! j ! k) = document_id (ps ! j) @ ''.'' @ str_int (int k + 1) \<and>
                 context_doc_id (mss ! j ! k) = document_id (ps ! j))"
    by blast
  have "\<forall>j<length (p # ps). length ((new # mss) ! j) \<le> length (entities ((p # ps) ! j)) \<and>
              (\<forall>k<length ((new # mss) ! j).
                 mention_id ((new # mss) ! j ! k) =
                   document_id ((p # ps) ! j) @ ''.'' @ str_int (int k + 1) \<and>
                 context_doc_id ((new # mss) ! j ! k) = document_id ((p # ps) ! j))"
  proof (intro allI impI)
    fix j assume j: "j < length (p # ps)"
    show "length ((new # mss) ! j) \<le> length (entities ((p # ps) ! j)) \<and>
              (\<forall>k<length ((new # mss) ! j).
                 mention_id ((new # mss) ! j ! k) =
                   document_id ((p # ps) ! j) @ ''.'' @ str_int (int k + 1) \<and>
                 context_doc_id ((new # mss) ! j ! k) = document_id ((p # ps) ! j))"
    proof (cases j)
      case 0
      with new(2,3) show ?thesis by (simp add: add.commute)
    next
      case (Suc j')
      with j have "j' < length ps" by simp
      with mss(3) Suc show ?thesis by simp
    qed
  qed
  with new(1) mss(1,2) show ?case
    by (intro exI [of _ "new # mss"]) simp
qed

lemma entities_loop_not_KeyError:
  "entities_loop umls c2g s2g ctg cc d atxt es st \<noteq> Inl KeyError"
proof (induction es arbitrary: st)
  case Nil
  show ?case by simp
next
  case (Cons e es)
  obtain i acc where st: "st = (i, acc)" by (cases st)
  show ?case
    unfolding st using entity_body_not_KeyError [of umls c2g s2g ctg cc d atxt i e] Cons.IH
    by (auto split: sum.splits outcome.splits)
qed

lemma first_fragments_not_KeyError: "first_fragments ps \<noteq> Inl KeyError"
  by (induction ps) (auto split: list.splits sum.splits)

lemma all_text_of_not_KeyError: "all_text_of ps \<noteq> Inl KeyError"
  using first_fragments_not_KeyError [of ps]
  by (auto simp: all_text_of_def split: sum.splits)

lemma pages_loop_not_KeyError: "pages_loop umls c2g s2g ctg cc ps acc \<noteq> Inl KeyError"
proof (induction ps arbitrary: acc)
  case Nil
  show ?case by simp
next
  case (Cons p ps)
  show ?case
    using all_text_of_not_KeyError [of "passages p"] entities_loop_not_KeyError Cons.IH
    by (auto split: sum.splits prod.splits)
qed

lemma entities_loop_all:
  assumes "entities_loop umls c2g s2g ctg cc d atxt es (i, acc) = Inr (i', acc')"
    and "\<forall>m\<in>set acc. P m"
    and "\<And>e i m. entity_body umls c2g s2g ctg cc d atxt i e = Inr (Emit m) \<Longrightarrow> P m"
  shows "\<forall>m\<in>set acc'. P m"
  using assms(1,2)
proof (induction es arbitrary: i acc)
  case Nil
  then show ?case by simp
next
  case (Cons e es)
  show ?case
  proof (cases "entity_body umls c2g s2g ctg cc d atxt i e")
    case (Inl err)
    with Cons.prems show ?thesis by simp
  next
    case (Inr out)
    show ?thesis
    proof (cases out)
      case (Skip r)
      with Inr Cons.prems Cons.IH [of i acc] show ?thesis by simp
    next
      case (Emit m)
      with Inr have "P m" by (auto intro: assms(3))
      with Emit Inr Cons.prems Cons.IH [of "i + 1" "acc @ [m]"] show ?thesis by simp
    qed
  qed
qed

lemma pages_loop_all:
  assumes "pages_loop umls c2g s2g ctg cc ps acc = Inr ms"
    and "\<forall>m\<in>set acc. P m"
    and "\<And>d atxt e i m. entity_body umls c2g s2g ctg cc d atxt i e = Inr (Emit m) \<Longrightarrow> P m"
  shows "\<forall>m\<in>set ms. P m"
  using assms(1,2)
proof (induction ps arbitrary: acc)
  case Nil
  then show ?case by simp
next
  case (Cons p ps)
  from Cons.prems(1) obtain atxt i' acc' where
    e: "entities_loop umls c2g s2g ctg cc (document_id p) atxt (entities p) (1, acc) = Inr (i', acc')"
    and r: "pages_loop umls c2g s2g ctg cc ps acc' = Inr ms"
    by (auto split: sum.splits prod.splits)
  have "\<forall>m\<in>set acc'. P m"
    by (rule entities_loop_all [OF e Cons.prems(2)]) (rule assms(3))
  with Cons.IH [OF r] show ?case by simp
qed

lemma entities_loop_presubstitute:
  "entities_loop umls c2g s2g ctg (Some cc) d atxt es st =
   entities_loop umls c2g s2g ctg None d atxt (map (presubstitute_entity cc) es) st"
proof (induction es arbitrary: st)
  case Nil
  show ?case by simp
next
  case (Cons e es)
  obtain i acc where st: "st = (i, acc)" by (cases st)
  show ?case
    unfolding st
    by (simp add: entity_body_presubstitute [symmetric] Cons.IH split: sum.splits outcome.splits)
qed

lemma pages_loop_presubstitute:
  "pages_loop umls c2g s2g ctg (Some cc) ps acc =
   pages_loop umls c2g s2g ctg None (map (presubstitute cc) ps) acc"
proof (induction ps arbitrary: acc)
  case Nil
  show ?case by simp
next
  case (Cons p ps)
  show ?case
    by (simp add: presubstitute_def entities_loop_presubstitute [symmetric]
        Cons.IH [unfolded presubstitute_def] split: sum.splits prod.splits)
qed

section \<open>The example inputs, evaluated\<close>

lemma ex_page_result:
  "transform_pages [ex_page] ex_umls ex_semantic_info ex_ctg_two None =
     Inr [ex_mention_flu ''Disease'' ''Flu ( Disease : Viral ; Infectious )'', ex_mention_empty]"
  by code_simp

lemma ex_entity_one:
  "entity_body ex_umls (cat_to_group ex_semantic_info) (sem_to_group ex_semantic_info)
     ex_ctg_one None ''doc'' ''the flu is bad'' 1 ex_entity =
   Inr (Emit (ex_mention_flu ''Symptom'' ''Flu ( Symptom : Sign )''))"
  by code_simp

lemma ex_entity_two:
  "entity_body ex_umls (cat_to_group ex_semantic_info) (sem_to_group ex_semantic_info)
     ex_ctg_two None ''doc'' ''the flu is bad'' 1 ex_entity =
   Inr (Emit (ex_mention_flu ''Disease'' ''Flu ( Disease : Viral ; Infectious )''))"
  by code_simp

lemma ex_miscoded_result:
  "entity_body ex_umls (cat_to_group ex_semantic_info) (sem_to_group ex_semantic_info)
     ex_ctg_two (Some ex_cc) ''doc'' ''the flu is bad'' 1 ex_miscoded =
   Inr (Emit (ex_mention_flu ''Disease'' ''Flu ( Disease : Viral ; Infectious )''))"
  by code_simp

section \<open>The claims\<close>

text \<open>
  Claim C1. When the (possibly corrected) concept id of an entity has exactly one candidate
  group \<open>g\<close> in the concept-group index, the resolved group is \<open>g\<close> whatever the raw
  type, the \<open>type\<close> field of the emitted record is \<open>g\<close>, and neither the raw type nor
  the two type tables have any influence on what the entity produces.
\<close>

theorem C1_single_candidate_group:
  assumes "ent_normalized e = n # ns"
    and "ctg (corrected_cui cc (db_id n)) = Some [g]"
  shows "(\<forall>ty. resolve_group c2g s2g [g] ty = g) \<and>
         (\<forall>m. entity_body umls c2g s2g ctg cc d atxt i e = Inr (Emit m) \<longrightarrow> mtype m = g) \<and>
         (\<forall>ty c2g' s2g'. entity_body umls c2g' s2g' ctg cc d atxt i (e\<lparr>ent_type := ty\<rparr>) =
                 entity_body umls c2g s2g ctg cc d atxt i e)"
proof (intro conjI allI impI)
  fix ty show "resolve_group c2g s2g [g] ty = g" by (rule resolve_group_single)
next
  fix m assume "entity_body umls c2g s2g ctg cc d atxt i e = Inr (Emit m)"
  then show "mtype m = g"
    using assms by (elim entity_body_EmitE) (simp add: resolve_group_single)
next
  fix ty c2g' s2g'
  have "ent_normalized (e\<lparr>ent_type := ty\<rparr>) = n # ns" using assms(1) by simp
  then show "entity_body umls c2g' s2g' ctg cc d atxt i (e\<lparr>ent_type := ty\<rparr>) =
        entity_body umls c2g s2g ctg cc d atxt i e"
    using assms
    by (auto simp: entity_body_flat resolve_group_single Let_def split: option.splits sum.splits)
qed

text \<open>
  At the example: \<open>C1\<close> has the single candidate \<open>Symptom\<close>, the raw type \<open>T047\<close>
  would give \<open>Procedure\<close>, and the record has type \<open>Symptom\<close>, also with another raw
  type and empty type tables.
\<close>

theorem C1_witness:
  "entity_body ex_umls (cat_to_group ex_semantic_info) (sem_to_group ex_semantic_info)
     ex_ctg_one None ''doc'' ''the flu is bad'' 1 ex_entity =
     Inr (Emit (ex_mention_flu ''Symptom'' ''Flu ( Symptom : Sign )'')) \<and>
   mtype (ex_mention_flu ''Symptom'' ''Flu ( Symptom : Sign )'') = ''Symptom'' \<and>
   entity_body ex_umls [] [] ex_ctg_one None ''doc'' ''the flu is bad'' 1
     (ex_entity\<lparr>ent_type := Some ''Disease''\<rparr>) =
     Inr (Emit (ex_mention_flu ''Symptom'' ''Flu ( Symptom : Sign )''))"
proof -
  have h1: "ent_normalized ex_entity = \<lparr>db_name = ''umls'', db_id = ''C1''\<rparr> # []"
    by (simp add: ex_entity_def)
  have h2: "ex_ctg_one (corrected_cui None (db_id \<lparr>db_name = ''umls'', db_id = ''C1''\<rparr>)) =
              Some [''Symptom'']"
    by (simp add: ex_ctg_one_def corrected_cui_def)
  note c1 = C1_single_candidate_group [where e = ex_entity
      and n = "\<lparr>db_name = ''umls'', db_id = ''C1''\<rparr>" and ns = "[]" and cc = None
      and ctg = ex_ctg_one and g = "''Symptom''", OF h1 h2, where umls = ex_umls
      and ?c2g = "cat_to_group ex_semantic_info" and ?s2g = "sem_to_group ex_semantic_info"
      and d = "''doc''" and atxt = "''the flu is bad''" and i = 1]
  from c1 have a: "\<forall>m. entity_body ex_umls (cat_to_group ex_semantic_info)
        (sem_to_group ex_semantic_info) ex_ctg_one None ''doc'' ''the flu is bad'' 1 ex_entity =
        Inr (Emit m) \<longrightarrow> mtype m = ''Symptom''"
    by (rule conjunct1 [OF conjunct2])
  from c1 have b: "entity_body ex_umls [] [] ex_ctg_one None ''doc'' ''the flu is bad'' 1
     (ex_entity\<lparr>ent_type := Some ''Disease''\<rparr>) =
     entity_body ex_umls (cat_to_group ex_semantic_info) (sem_to_group ex_semantic_info)
       ex_ctg_one None ''doc'' ''the flu is bad'' 1 ex_entity"
    by blast
  show ?thesis
    using a [rule_format, OF ex_entity_one] b ex_entity_one by simp
qed

text \<open>
  Claim C2. When the concept id of an entity has zero or several candidate groups, the
  resolved group is the one of the priority chain (the raw type as a group name, then as a
  category code, then as a semantic-type code, else \<open>Unknown\<close>), unless that group is not
  among a non-empty list of candidates: then it is the first candidate. The emitted
  record carries that group.
\<close>

theorem C2_type_heuristics:
  assumes "ent_normalized e = n # ns"
    and "groups = (case ctg (corrected_cui cc (db_id n)) of None \<Rightarrow> [] | Some gs \<Rightarrow> gs)"
    and "length groups \<noteq> 1"
    and "tg = spec_type_group c2g s2g (ent_type e)"
  shows "resolve_group c2g s2g groups (ent_type e) =
           (if tg \<notin> set groups \<and> groups \<noteq> [] then hd groups else tg) \<and>
         (\<forall>m. entity_body umls c2g s2g ctg cc d atxt i e = Inr (Emit m) \<longrightarrow>
              mtype m = (if tg \<notin> set groups \<and> groups \<noteq> [] then hd groups else tg))"
proof (intro conjI allI impI)
  show r: "resolve_group c2g s2g groups (ent_type e) =
           (if tg \<notin> set groups \<and> groups \<noteq> [] then hd groups else tg)"
    using resolve_group_spec [OF assms(3)] assms(4) by simp
  fix m assume "entity_body umls c2g s2g ctg cc d atxt i e = Inr (Emit m)"
  then show "mtype m = (if tg \<notin> set groups \<and> groups \<noteq> [] then hd groups else tg)"
    using assms(1,2) r by (elim entity_body_EmitE) simp
qed

text \<open>
  The scenario of the specification: \<open>T047\<close> maps to \<open>Procedure\<close>, which is not among
  the candidates \<open>Disease\<close> and \<open>Symptom\<close>, so the group is \<open>Disease\<close>.
\<close>

theorem C2_witness:
  "resolve_group (cat_to_group ex_semantic_info) (sem_to_group ex_semantic_info)
     [''Disease'', ''Symptom''] (Some ''T047'') = ''Disease'' \<and>
   mtype (ex_mention_flu ''Disease'' ''Flu ( Disease : Viral ; Infectious )'') = ''Disease''"
proof -
  have h1: "ent_normalized ex_entity = \<lparr>db_name = ''umls'', db_id = ''C1''\<rparr> # []"
    by (simp add: ex_entity_def)
  have h2: "[''Disease'', ''Symptom''] =
     (case ex_ctg_two (corrected_cui None (db_id \<lparr>db_name = ''umls'', db_id = ''C1''\<rparr>)) of
        None \<Rightarrow> [] | Some gs \<Rightarrow> gs)"
    by (simp add: ex_ctg_two_def corrected_cui_def)
  have h3: "length [''Disease'', ''Symptom''] \<noteq> 1" by simp
  have h4: "''Procedure'' = spec_type_group (cat_to_group ex_semantic_info)
     (sem_to_group ex_semantic_info) (ent_type ex_entity)"
    by code_simp
  note c2 = C2_type_heuristics [where e = ex_entity
      and n = "\<lparr>db_name = ''umls'', db_id = ''C1''\<rparr>" and ns = "[]" and cc = None
      and ctg = ex_ctg_two and groups = "[''Disease'', ''Symptom'']" and tg = "''Procedure''"
      and ?c2g = "cat_to_group ex_semantic_info" and ?s2g = "sem_to_group ex_semantic_info",
      OF h1 h2 h3 h4, where umls = ex_umls
      and d = "''doc''" and atxt = "''the flu is bad''" and i = 1]
  have t: "ent_type ex_entity = Some ''T047''" by (simp add: ex_entity_def)
  from c2 [THEN conjunct1] have a: "resolve_group (cat_to_group ex_semantic_info)
     (sem_to_group ex_semantic_info) [''Disease'', ''Symptom''] (Some ''T047'') = ''Disease''"
    unfolding t by simp
  from c2 [THEN conjunct2, rule_format, OF ex_entity_two]
  have b: "mtype (ex_mention_flu ''Disease'' ''Flu ( Disease : Viral ; Infectious )'') = ''Disease''"
    by simp
  from a b show ?thesis by (rule conjI)
qed




text \<open>
  Claim C4. Running the extraction with a correction dictionary gives the same result (the
  same mention records, or the same exception) as substituting the first normalized id of
  every entity in the pages and running the extraction with no correction dictionary.
\<close>

theorem C4_overlay_commutes:
  "transform_pages pages umls semantic_info ctg (Some cc) =
   transform_pages (map (presubstitute cc) pages) umls semantic_info ctg None"
  by (simp add: transform_pages_def pages_loop_presubstitute)

theorem C4_witness:
  "transform_pages (map (presubstitute ex_cc) [ex_page\<lparr>entities := [ex_miscoded]\<rparr>])
     ex_umls ex_semantic_info ex_ctg_two None =
   Inr [ex_mention_flu ''Disease'' ''Flu ( Disease : Viral ; Infectious )'']"
proof -
  have "transform_pages [ex_page\<lparr>entities := [ex_miscoded]\<rparr>] ex_umls ex_semantic_info
          ex_ctg_two (Some ex_cc) =
        Inr [ex_mention_flu ''Disease'' ''Flu ( Disease : Viral ; Infectious )'']"
    by code_simp
  then show ?thesis
    by (simp only: C4_overlay_commutes)
qed

text \<open>
  Claim C5. The mentions returned are the concatenation of one block per page, in page
  order; a block has at most as many mentions as the page has entities, and the mention
  at position \<open>k\<close> of the block (counted from 0) has the \<open>mention_id\<close> made of the
  page's document id, a dot and \<open>k + 1\<close>: the index starts at 1 and increases by one from
  each emitted mention to the next, so no skipped entity uses one, and the ids of a block
  are pairwise different.
\<close>

theorem C5_mention_id_sequence:
  assumes "transform_pages pages umls semantic_info ctg cc = Inr ms"
  shows "\<exists>mss. length mss = length pages \<and> ms = concat mss \<and>
           (\<forall>j<length pages. length (mss ! j) \<le> length (entities (pages ! j)) \<and>
              distinct (map mention_id (mss ! j)) \<and>
              (\<forall>k<length (mss ! j).
                 mention_id (mss ! j ! k) =
                   document_id (pages ! j) @ ''.'' @ str_int (int k + 1) \<and>
                 context_doc_id (mss ! j ! k) = document_id (pages ! j)))"
proof -
  from pages_loop_ids [OF assms [unfolded transform_pages_def]] obtain mss where mss:
    "length mss = length pages" "ms = concat mss"
    "\<forall>j<length pages. length (mss ! j) \<le> length (entities (pages ! j)) \<and>
        (\<forall>k<length (mss ! j).
           mention_id (mss ! j ! k) =
             document_id (pages ! j) @ ''.'' @ str_int (int k + 1) \<and>
           context_doc_id (mss ! j ! k) = document_id (pages ! j))"
    by auto
  have "distinct (map mention_id (mss ! j))" if "j < length pages" for j
    using mss(3) that by (intro ids_distinct [where d = "document_id (pages ! j)"]) simp
  with mss show ?thesis by (intro exI [of _ mss]) simp
qed

theorem C5_witness:
  "\<exists>mss. length mss = length [ex_page] \<and>
     [ex_mention_flu ''Disease'' ''Flu ( Disease : Viral ; Infectious )'', ex_mention_empty] =
       concat mss \<and>
     (\<forall>j<length [ex_page]. length (mss ! j) \<le> length (entities ([ex_page] ! j)) \<and>
        distinct (map mention_id (mss ! j)) \<and>
        (\<forall>k<length (mss ! j).
           mention_id (mss ! j ! k) =
             document_id ([ex_page] ! j) @ ''.'' @ str_int (int k + 1) \<and>
           context_doc_id (mss ! j ! k) = document_id ([ex_page] ! j)))"
  by (rule C5_mention_id_sequence [OF ex_page_result])

text \<open>
  Claim C6. An entity with no normalized reference is skipped: its body emits nothing, the
  loop goes on with the remaining entities from the same \<open>entity_id\<close> and the same list
  of mentions, and the whole extraction gives what it gives on the pages without that
  entity.
\<close>

theorem C6_no_normalized_skipped:
  assumes "ent_normalized e = []"
  shows "entity_body umls c2g s2g ctg cc d atxt i e = Inr (Skip NoCUI) \<and>
         entities_loop umls c2g s2g ctg cc d atxt (e # es) (i, acc) =
           entities_loop umls c2g s2g ctg cc d atxt es (i, acc) \<and>
         transform_pages (ps1 @ p\<lparr>entities := es1 @ e # es2\<rparr> # ps2) umls semantic_info ctg cc =
           transform_pages (ps1 @ p\<lparr>entities := es1 @ es2\<rparr> # ps2) umls semantic_info ctg cc"
proof (intro conjI)
  show "entity_body umls c2g s2g ctg cc d atxt i e = Inr (Skip NoCUI)"
    using assms by (rule entity_body_no_normalized)
  show "entities_loop umls c2g s2g ctg cc d atxt (e # es) (i, acc) =
           entities_loop umls c2g s2g ctg cc d atxt es (i, acc)"
    using assms by (simp add: entity_body_no_normalized)
  have step: "entities_loop umls' c2g' s2g' ctg cc d' t' (e # es2) st =
              entities_loop umls' c2g' s2g' ctg cc d' t' es2 st" for umls' c2g' s2g' d' t' st
    using assms by (cases st) (simp add: entity_body_no_normalized)
  have ents: "entities_loop umls' c2g' s2g' ctg cc d' t' (es1 @ e # es2) st =
              entities_loop umls' c2g' s2g' ctg cc d' t' (es1 @ es2) st" for umls' c2g' s2g' d' t' st
    by (simp add: entities_loop_append step cong: sum.case_cong)
  show "transform_pages (ps1 @ p\<lparr>entities := es1 @ e # es2\<rparr> # ps2) umls semantic_info ctg cc =
           transform_pages (ps1 @ p\<lparr>entities := es1 @ es2\<rparr> # ps2) umls semantic_info ctg cc"
    unfolding transform_pages_def pages_loop_append
    by (simp add: ents split: sum.splits)
qed

theorem C6_witness:
  "ent_normalized ex_unlinked = [] \<and>
   transform_pages [ex_page] ex_umls ex_semantic_info ex_ctg_two None =
   transform_pages [ex_page\<lparr>entities := [ex_entity, ex_no_text]\<rparr>] ex_umls ex_semantic_info
     ex_ctg_two None"
proof -
  have h: "ent_normalized ex_unlinked = []" by (simp add: ex_unlinked_def)
  have p: "ex_page = ex_page\<lparr>entities := [] @ ex_unlinked # [ex_entity, ex_no_text]\<rparr>"
    by (simp add: ex_page_def)
  from C6_no_normalized_skipped [OF h, where ?ps1.0 = "[]" and ?ps2.0 = "[]" and p = ex_page
      and ?es1.0 = "[]" and ?es2.0 = "[ex_entity, ex_no_text]" and umls = ex_umls
      and semantic_info = ex_semantic_info and ctg = ex_ctg_two and cc = None]
  have "transform_pages [ex_page\<lparr>entities := [] @ ex_unlinked # [ex_entity, ex_no_text]\<rparr>]
          ex_umls ex_semantic_info ex_ctg_two None =
        transform_pages [ex_page\<lparr>entities := [ex_entity, ex_no_text]\<rparr>] ex_umls
          ex_semantic_info ex_ctg_two None"
    by simp
  with h p show ?thesis by simp
qed

text \<open>
  Claim C8. The extraction never raises \<open>KeyError\<close>, and every mention it returns has
  its \<open>type\<close> as a key of \<open>umls_info\<close>, its \<open>label_id\<close> as a key under that group,
  and as \<open>label\<close> and \<open>label_title\<close> the description and the title stored there.
\<close>

theorem C8_labels_from_umls_info:
  "transform_pages pages umls semantic_info ctg cc \<noteq> Inl KeyError \<and>
   (\<forall>ms. transform_pages pages umls semantic_info ctg cc = Inr ms \<longrightarrow>
      (\<forall>m\<in>set ms. \<exists>by_cui info.
          umls (mtype m) = Some by_cui \<and> by_cui (label_id m) = Some info \<and>
          label m = description info \<and> label_title m = title info))"
proof (intro conjI allI impI)
  show "transform_pages pages umls semantic_info ctg cc \<noteq> Inl KeyError"
    by (simp add: transform_pages_def pages_loop_not_KeyError)
next
  fix ms assume "transform_pages pages umls semantic_info ctg cc = Inr ms"
  then have "pages_loop umls (cat_to_group semantic_info) (sem_to_group semantic_info) ctg cc
               pages [] = Inr ms"
    by (simp add: transform_pages_def)
  then show "\<forall>m\<in>set ms. \<exists>by_cui info.
          umls (mtype m) = Some by_cui \<and> by_cui (label_id m) = Some info \<and>
          label m = description info \<and> label_title m = title info"
    by (rule pages_loop_all) (auto elim!: entity_body_EmitE)
qed

theorem C8_witness:
  "transform_pages [ex_page] ex_umls ex_semantic_info ex_ctg_two None =
     Inr [ex_mention_flu ''Disease'' ''Flu ( Disease : Viral ; Infectious )'', ex_mention_empty] \<and>
   (\<exists>by_cui info.
      ex_umls (mtype ex_mention_empty) = Some by_cui \<and>
      by_cui (label_id ex_mention_empty) = Some info \<and>
      label ex_mention_empty = description info \<and>
      label_title ex_mention_empty = title info)"
proof -
  have "ex_mention_empty \<in>
    set [ex_mention_flu ''Disease'' ''Flu ( Disease : Viral ; Infectious )'', ex_mention_empty]"
    by simp
  with C8_labels_from_umls_info [of "[ex_page]" ex_umls ex_semantic_info ex_ctg_two None]
    ex_page_result
  show ?thesis by blast
qed

text \<open>
  Claim C9. When the correction dictionary maps the id of the first normalized reference
  to \<open>c\<close>, the id used is \<open>c\<close>, whether or not \<open>c\<close> is itself a key of the dictionary:
  the entity produces what the entity with the id \<open>c\<close> produces with no correction, and
  an emitted record has \<open>c\<close> as \<open>label_id\<close>, the group resolved from the candidates
  of \<open>c\<close>, and the label stored for \<open>c\<close>.
\<close>

theorem C9_correction_applied_once:
  assumes "ent_normalized e = n # ns"
    and "cc (db_id n) = Some c"
  shows "corrected_cui (Some cc) (db_id n) = c \<and>
         entity_body umls c2g s2g ctg (Some cc) d atxt i e =
           entity_body umls c2g s2g ctg None d atxt i (e\<lparr>ent_normalized := n\<lparr>db_id := c\<rparr> # ns\<rparr>) \<and>
         (\<forall>m. entity_body umls c2g s2g ctg (Some cc) d atxt i e = Inr (Emit m) \<longrightarrow>
            label_id m = c \<and>
            mtype m = resolve_group c2g s2g (case ctg c of None \<Rightarrow> [] | Some gs \<Rightarrow> gs) (ent_type e) \<and>
            (\<exists>by_cui info. umls (mtype m) = Some by_cui \<and> by_cui c = Some info \<and>
               label m = description info \<and> label_title m = title info))"
proof (intro conjI allI impI)
  show c: "corrected_cui (Some cc) (db_id n) = c"
    using assms(2) by (simp add: corrected_cui_def)
  have "presubstitute_entity cc e = e\<lparr>ent_normalized := n\<lparr>db_id := c\<rparr> # ns\<rparr>"
    by (simp add: presubstitute_entity_def assms(1) c)
  then show "entity_body umls c2g s2g ctg (Some cc) d atxt i e =
           entity_body umls c2g s2g ctg None d atxt i (e\<lparr>ent_normalized := n\<lparr>db_id := c\<rparr> # ns\<rparr>)"
    by (simp add: entity_body_presubstitute)
next
  fix m assume em: "entity_body umls c2g s2g ctg (Some cc) d atxt i e = Inr (Emit m)"
  have c: "corrected_cui (Some cc) (db_id n) = c"
    using assms(2) by (simp add: corrected_cui_def)
  from em show "label_id m = c"
    using assms(1) c by (elim entity_body_EmitE) simp
  from em show "mtype m = resolve_group c2g s2g (case ctg c of None \<Rightarrow> [] | Some gs \<Rightarrow> gs) (ent_type e)"
    using assms(1) c by (elim entity_body_EmitE) simp
  from em show "\<exists>by_cui info. umls (mtype m) = Some by_cui \<and> by_cui c = Some info \<and>
               label m = description info \<and> label_title m = title info"
    using assms(1) c by (elim entity_body_EmitE) simp
qed

text \<open>
  At the example, \<open>C0\<close> is corrected to \<open>C1\<close>, which the dictionary would map on to
  \<open>C2\<close>; the record is the one of \<open>C1\<close>.
\<close>

theorem C9_witness:
  "ex_cc ''C0'' = Some ''C1'' \<and> ex_cc ''C1'' = Some ''C2'' \<and>
   entity_body ex_umls (cat_to_group ex_semantic_info) (sem_to_group ex_semantic_info)
     ex_ctg_two (Some ex_cc) ''doc'' ''the flu is bad'' 1 ex_miscoded =
     Inr (Emit (ex_mention_flu ''Disease'' ''Flu ( Disease : Viral ; Infectious )'')) \<and>
   label_id (ex_mention_flu ''Disease'' ''Flu ( Disease : Viral ; Infectious )'') = ''C1''"
proof -
  have h1: "ent_normalized ex_miscoded = \<lparr>db_name = ''umls'', db_id = ''C0''\<rparr> # []"
    by (simp add: ex_miscoded_def)
  have h2: "ex_cc (db_id \<lparr>db_name = ''umls'', db_id = ''C0''\<rparr>) = Some ''C1''"
    by (simp add: ex_cc_def)
  have h3: "ex_cc ''C1'' = Some ''C2''" by (simp add: ex_cc_def)
  from C9_correction_applied_once [where e = ex_miscoded
      and n = "\<lparr>db_name = ''umls'', db_id = ''C0''\<rparr>" and ns = "[]" and cc = ex_cc
      and c = "''C1''", OF h1 h2, THEN conjunct2, THEN conjunct2, rule_format,
      OF ex_miscoded_result]
  have "label_id (ex_mention_flu ''Disease'' ''Flu ( Disease : Viral ; Infectious )'') = ''C1''"
    by (rule conjunct1)
  with h2 h3 ex_miscoded_result show ?thesis by simp
qed




end
